theory Spec2Isabelle
  imports Main "HOL-Library.Sublist"
begin

section \<open>Python string operations used by the two checkers\<close>

text \<open>
  A Python \<open>str\<close> is modelled as a \<open>string\<close>, each \<open>char\<close> standing for one code
  point below 256. \<open>is_space\<close> is \<open>str.isspace\<close> on those code points: tab, line feed,
  vertical tab, form feed, carriage return, the four separators 0x1C..0x1F, space,
  NEL (0x85) and the no-break space (0xA0). This is the set on which \<open>str.split()\<close> and
  \<open>str.strip()\<close> without arguments cut.
\<close>

definition is_space :: "char \<Rightarrow> bool" where
  "is_space c =
     (let n = (of_char c :: nat)
      in (9 \<le> n \<and> n \<le> 13) \<or> (28 \<le> n \<and> n \<le> 32) \<or> n = 133 \<or> n = 160)"

text \<open>
  \<open>s.split()\<close>: skip a run of whitespace, stop at the end of the text, otherwise cut the
  maximal run of non-whitespace characters and go on behind it.
\<close>

function py_split :: "string \<Rightarrow> string list" where
  "py_split s =
     (let r = dropWhile is_space s
      in if r = [] then []
         else takeWhile (\<lambda>c. \<not> is_space c) r # py_split (dropWhile (\<lambda>c. \<not> is_space c) r))"
  by pat_completeness auto
termination
proof (relation "measure length")
  show "wf (measure length)" by simp
next
  fix s r :: string
  assume r: "r = dropWhile is_space s" and ne: "r \<noteq> []"
  from ne have "\<not> is_space (hd r)"
    unfolding r by (rule hd_dropWhile)
  with ne have "length (dropWhile (\<lambda>c. \<not> is_space c) r) < length r"
    by (cases r) (simp_all add: le_imp_less_Suc length_dropWhile_le)
  moreover have "length r \<le> length s"
    unfolding r by (rule length_dropWhile_le)
  ultimately show "(dropWhile (\<lambda>c. \<not> is_space c) r, s) \<in> measure length"
    by simp
qed

declare py_split.simps [simp del]

text \<open>\<open>sep.join(xs)\<close>: the items with \<open>sep\<close> between neighbours, nothing for no item.\<close>

fun py_join :: "string \<Rightarrow> string list \<Rightarrow> string" where
  "py_join sep [] = []"
| "py_join sep [x] = x"
| "py_join sep (x # y # ys) = x @ sep @ py_join sep (y # ys)"

text \<open>\<open>s.strip()\<close>: whitespace removed at both ends.\<close>

definition py_strip :: "string \<Rightarrow> string" where
  "py_strip s = rev (dropWhile is_space (rev (dropWhile is_space s)))"

text \<open>
  \<open>sub in s\<close>: the text \<open>sub\<close> occurs in \<open>s\<close> at some position; positions are tried from
  the left.
\<close>

fun py_in :: "string \<Rightarrow> string \<Rightarrow> bool" where
  "py_in sub [] = (sub = [])"
| "py_in sub (c # cs) = (if prefix sub (c # cs) then True else py_in sub cs)"

section \<open>Report entries\<close>

text \<open>
  Each result is a dictionary with the keys \<open>job\<close>, \<open>status\<close> and \<open>message\<close>; the status
  is one of the three literals \<open>"success"\<close>, \<open>"missing"\<close> and \<open>"failed"\<close>.
\<close>

datatype Status = Success | Missing | Failed

record entry =
  job :: string
  status :: Status
  message :: string

section \<open>cron flavor: command label of a declared job\<close>

text \<open>\<open>" ".join(job.split()[5:])\<close>; a slice past the end is the empty list.\<close>

definition job_cmd :: "string \<Rightarrow> string" where
  "job_cmd job_line = py_join '' '' (drop 5 (py_split job_line))"

text \<open>The window size of both files, and \<open>str\<close> of a non-negative integer as an f-string prints it.\<close>

definition CHECK_MINUTES :: nat where
  "CHECK_MINUTES = 10"

definition digit_char :: "nat \<Rightarrow> char" where
  "digit_char d = char_of (48 + d)"

fun str_nat :: "nat \<Rightarrow> string" where
  "str_nat n = (if n < 10 then [digit_char n] else str_nat (n div 10) @ [digit_char (n mod 10)])"

declare str_nat.simps [simp del]

text \<open>The message of a failed entry: the raw line between two code fences.\<close>

definition fenced :: "string \<Rightarrow> string" where
  "fenced e = ''```'' @ [CHR 0x0A] @ e @ [CHR 0x0A] @ ''```''"

section \<open>The report sent to the webhook (the same code in both files)\<close>

text \<open>
  \<open>send_discord_report\<close> builds one embed. Its colour is red when some entry failed,
  else orange when some entry is missing, else green. Every entry becomes one field whose
  name is an icon, a space and the job, whose value is the message and which is not
  inline. The three icons are code points outside the modelled range and are kept as a
  datatype; the title and the footer (a constant text and the time of the run) are not
  part of the model.
\<close>

datatype glyph = CheckMark | WarningSign | CrossMark

record embed_field =
  name_icon :: glyph
  name_job :: string
  field_value :: string
  inline :: bool

record payload =
  description :: string
  color :: nat
  field_list :: "embed_field list"

definition embed_color :: "entry list \<Rightarrow> nat" where
  "embed_color results =
     (if list_ex (\<lambda>r. status r = Failed) results then 0xE74C3C
      else if list_ex (\<lambda>r. status r = Missing) results then 0xE67E22
      else 0x2ECC71)"

definition status_icon :: "Status \<Rightarrow> glyph" where
  "status_icon s = (if s = Success then CheckMark else if s = Missing then WarningSign else CrossMark)"

fun fields_loop :: "entry list \<Rightarrow> embed_field list \<Rightarrow> embed_field list" where
  "fields_loop [] fs = fs"
| "fields_loop (r # rs) fs =
     fields_loop rs
       (fs @ [\<lparr>name_icon = status_icon (status r), name_job = job r,
               field_value = message r, inline = False\<rparr>])"

definition send_discord_report :: "entry list \<Rightarrow> payload" where
  "send_discord_report results =
     \<lparr>description = ''Checked the last **'' @ str_nat CHECK_MINUTES @ '' minutes** of logs.'',
      color = embed_color results,
      field_list = fields_loop results []\<rparr>"

section \<open>cron flavor (cron_checker.py)\<close>

subsection \<open>The declared jobs\<close>

text \<open>
  What running \<open>crontab -l\<close> can give: the command is not installed, it exits with an
  error (no crontab for the user), or it prints a listing, taken here as the lines that
  \<open>splitlines\<close> cuts it into.
\<close>

datatype crontab_run = CommandNotFound | CalledProcessError | Listing "string list"

fun crontab_loop :: "string list \<Rightarrow> string list \<Rightarrow> string list" where
  "crontab_loop [] jobs = jobs"
| "crontab_loop (line # rest) jobs =
     (if py_strip line \<noteq> [] \<and> \<not> prefix ''#'' line
      then crontab_loop rest (jobs @ [py_strip line])
      else crontab_loop rest jobs)"

fun get_crontab :: "crontab_run \<Rightarrow> string list" where
  "get_crontab CommandNotFound = []"
| "get_crontab CalledProcessError = []"
| "get_crontab (Listing ls) = crontab_loop ls []"

subsection \<open>The event extractor\<close>

text \<open>
  \<open>re.search\<close> of an alternation of literal texts: the positions are tried from the
  left, and at each position the alternatives in their order.
\<close>

fun re_search_alt :: "string list \<Rightarrow> string \<Rightarrow> bool" where
  "re_search_alt alts [] = list_ex (\<lambda>a. a = []) alts"
| "re_search_alt alts (c # cs) =
     (if list_ex (\<lambda>a. prefix a (c # cs)) alts then True else re_search_alt alts cs)"

fun parse_logs_loop :: "string list \<Rightarrow> string list \<Rightarrow> string list" where
  "parse_logs_loop [] events = events"
| "parse_logs_loop (line # logs) events =
     (if re_search_alt [''CRON'', ''cron'', ''fcron''] line
      then parse_logs_loop logs (events @ [line])
      else parse_logs_loop logs events)"

definition parse_logs :: "string list \<Rightarrow> string list" where
  "parse_logs logs = parse_logs_loop logs []"

subsection \<open>Reconciliation in \<open>main\<close>\<close>

definition no_crontab_entry :: entry where
  "no_crontab_entry =
     \<lparr>job = ''No user crontab'', status = Missing,
      message = ''No crontab entries found or '' @ [CHR 0x27] @ ''crontab'' @ [CHR 0x27] @ '' command missing.''\<rparr>"

text \<open>The body of the loop over the declared jobs.\<close>

definition job_result :: "string list \<Rightarrow> string \<Rightarrow> entry" where
  "job_result events job_line =
     (let cmd = job_cmd job_line;
          ran = list_ex (\<lambda>e. py_in cmd e) events
      in if ran
         then \<lparr>job = cmd, status = Success,
               message = ''Ran successfully in last '' @ str_nat CHECK_MINUTES @ '' minutes.''\<rparr>
         else \<lparr>job = cmd, status = Missing,
               message = ''Did **not run** (but scheduled).''\<rparr>)"

fun jobs_loop :: "string list \<Rightarrow> string list \<Rightarrow> entry list \<Rightarrow> entry list" where
  "jobs_loop [] events results = results"
| "jobs_loop (j # js) events results = jobs_loop js events (results @ [job_result events j])"

text \<open>The loop that looks for failures in the events.\<close>

definition failure_line :: "string \<Rightarrow> bool" where
  "failure_line e = (py_in ''EXIT STATUS'' e \<and> \<not> re_search_alt [''EXIT STATUS (0)''] e)"

definition failure_entry :: "string \<Rightarrow> entry" where
  "failure_entry e = \<lparr>job = ''Failure detected'', status = Failed, message = fenced e\<rparr>"

fun failures_loop :: "string list \<Rightarrow> entry list \<Rightarrow> entry list" where
  "failures_loop [] results = results"
| "failures_loop (e # es) results =
     (if failure_line e then failures_loop es (results @ [failure_entry e])
      else failures_loop es results)"

text \<open>
  The results that \<open>main\<close> hands to \<open>send_discord_report\<close>, from the declared jobs and
  the log lines that were read, and the report that \<open>main\<close> sends once \<open>get_logs\<close> has
  returned these lines.
\<close>

definition cron_results :: "string list \<Rightarrow> string list \<Rightarrow> entry list" where
  "cron_results jobs logs =
     (let events = parse_logs logs;
          results = (if jobs = [] then [no_crontab_entry] else []);
          results = jobs_loop jobs events results
      in failures_loop events results)"

definition cron_main :: "crontab_run \<Rightarrow> string list \<Rightarrow> payload" where
  "cron_main run logs = send_discord_report (cron_results (get_crontab run) logs)"

subsection \<open>Reading the logs, and the whole run\<close>

text \<open>
  The host that \<open>main\<close> runs on, as far as the script looks at it: what \<open>crontab -l\<close>
  gives; how \<open>systemctl is-active --quiet svc\<close> ends for a service (exit status zero, a
  non-zero exit status, which raises \<open>CalledProcessError\<close>, or no such program, which
  raises \<open>FileNotFoundError\<close>); the lines of the journal of a unit, or \<open>None\<close> when
  \<open>journalctl\<close> raises; the lines of a log file, or \<open>None\<close> when it does not exist or
  cannot be read.
\<close>

datatype call_outcome = ExitZero | ExitNonZero | NotFound

datatype py_error = FileNotFoundError

record host =
  crontab :: crontab_run
  systemctl :: "string \<Rightarrow> call_outcome"
  journalctl :: "string \<Rightarrow> string list option"
  log_file :: "string \<Rightarrow> string list option"

text \<open>
  \<open>detect_scheduler\<close>: the first service whose probe ends with exit status zero. Only
  \<open>CalledProcessError\<close> is caught, so the loop goes on after a non-zero exit status, and
  the error of a missing \<open>systemctl\<close> leaves the function.
\<close>

fun detect_loop :: "(string \<Rightarrow> call_outcome) \<Rightarrow> string list \<Rightarrow> py_error + string option" where
  "detect_loop probe [] = Inr None"
| "detect_loop probe (svc # services) =
     (case probe svc of
        ExitZero \<Rightarrow> Inr (Some svc)
      | ExitNonZero \<Rightarrow> detect_loop probe services
      | NotFound \<Rightarrow> Inl FileNotFoundError)"

definition detect_scheduler :: "host \<Rightarrow> py_error + string option" where
  "detect_scheduler h =
     detect_loop (systemctl h) [''cron.service'', ''crond.service'', ''fcron.service'']"

text \<open>
  \<open>get_logs\<close>: the journal of the detected service; when no service was detected or
  \<open>journalctl\<close> raises, the last 500 lines of each of the three log files that can be
  read, one after the other. The call of \<open>detect_scheduler\<close> stands outside every
  \<open>try\<close>.
\<close>

fun fallback_loop :: "(string \<Rightarrow> string list option) \<Rightarrow> string list \<Rightarrow> string list \<Rightarrow> string list" where
  "fallback_loop files [] logs = logs"
| "fallback_loop files (lf # log_files) logs =
     (case files lf of
        Some ls \<Rightarrow> fallback_loop files log_files (logs @ drop (length ls - 500) ls)
      | None \<Rightarrow> fallback_loop files log_files logs)"

definition fallback_logs :: "host \<Rightarrow> string list" where
  "fallback_logs h =
     fallback_loop (log_file h) [''/var/log/syslog'', ''/var/log/cron'', ''/var/log/fcron.log''] []"

definition get_logs :: "host \<Rightarrow> py_error + string list" where
  "get_logs h =
     (case detect_scheduler h of
        Inl err \<Rightarrow> Inl err
      | Inr None \<Rightarrow> Inr (fallback_logs h)
      | Inr (Some svc) \<Rightarrow>
          (case journalctl h svc of
             Some output \<Rightarrow> Inr output
           | None \<Rightarrow> Inr (fallback_logs h)))"

text \<open>
  The whole of \<open>main\<close>: the jobs are read, then the logs; an error of \<open>get_logs\<close> ends
  the run before any entry is built, and nothing is sent.
\<close>

definition cron_run :: "host \<Rightarrow> py_error + payload" where
  "cron_run h =
     (let run = crontab h
      in case get_logs h of
           Inl err \<Rightarrow> Inl err
         | Inr logs \<Rightarrow> Inr (cron_main run logs))"

section \<open>fcron flavor (fcron_checker.py)\<close>

subsection \<open>The event extractor\<close>

text \<open>
  \<open>re.search(r"fcron", line, re.IGNORECASE)\<close>: a character of the line matches a
  (lower-case) letter of the pattern when its lower-case form is that letter. Below 256
  only the letters A to Z have an ASCII letter as lower-case form.
\<close>

definition ascii_lower :: "char \<Rightarrow> char" where
  "ascii_lower c =
     (let n = (of_char c :: nat) in if 65 \<le> n \<and> n \<le> 90 then char_of (n + 32) else c)"

fun ci_prefix :: "string \<Rightarrow> string \<Rightarrow> bool" where
  "ci_prefix [] s = True"
| "ci_prefix (p # ps) [] = False"
| "ci_prefix (p # ps) (c # cs) = (ascii_lower c = p \<and> ci_prefix ps cs)"

fun re_search_ci :: "string \<Rightarrow> string \<Rightarrow> bool" where
  "re_search_ci pat [] = (pat = [])"
| "re_search_ci pat (c # cs) = (if ci_prefix pat (c # cs) then True else re_search_ci pat cs)"

fun parse_fcron_logs_loop :: "string list \<Rightarrow> string list \<Rightarrow> string list" where
  "parse_fcron_logs_loop [] events = events"
| "parse_fcron_logs_loop (line # logs) events =
     (if re_search_ci ''fcron'' line
      then parse_fcron_logs_loop logs (events @ [line])
      else parse_fcron_logs_loop logs events)"

definition parse_fcron_logs :: "string list \<Rightarrow> string list" where
  "parse_fcron_logs logs = parse_fcron_logs_loop logs []"

subsection \<open>The two patterns with a group\<close>

text \<open>
  \<open>re.search\<close> tries the start positions from the left, the end of the text last, and
  returns the group of the first position where the pattern matches.
\<close>

fun re_search :: "(string \<Rightarrow> 'a option) \<Rightarrow> string \<Rightarrow> 'a option" where
  "re_search match_at [] = match_at []"
| "re_search match_at (c # cs) =
     (case match_at (c # cs) of Some g \<Rightarrow> Some g | None \<Rightarrow> re_search match_at cs)"

text \<open>
  \<open>re.search(r'CMD \((.*?)\)', e)\<close>. Behind the text \<open>CMD (\<close> the lazy group takes
  characters one at a time until a closing parenthesis comes; the dot does not match a
  line feed, so the attempt fails at a line feed and at the end of the text.
\<close>

fun lazy_group :: "string \<Rightarrow> string option" where
  "lazy_group [] = None"
| "lazy_group (c # cs) =
     (if c = CHR '')'' then Some []
      else if c = CHR 0x0A then None
      else map_option (\<lambda>g. c # g) (lazy_group cs))"

definition cmd_match_at :: "string \<Rightarrow> string option" where
  "cmd_match_at s = (if prefix ''CMD ('' s then lazy_group (drop 5 s) else None)"

definition re_search_cmd :: "string \<Rightarrow> string option" where
  "re_search_cmd e = re_search cmd_match_at e"

text \<open>
  \<open>re.search(r'EXIT STATUS \((\d+)\)', e)\<close>. Behind the text \<open>EXIT STATUS (\<close> the
  group takes the whole run of decimal digits, which must not be empty and must be
  closed by a parenthesis (giving digits back cannot help: the next character is then a
  digit).
\<close>

definition is_digit :: "char \<Rightarrow> bool" where
  "is_digit c = (let n = (of_char c :: nat) in 48 \<le> n \<and> n \<le> 57)"

definition exit_match_at :: "string \<Rightarrow> string option" where
  "exit_match_at s =
     (if prefix ''EXIT STATUS ('' s
      then (let r = drop 13 s; ds = takeWhile is_digit r
            in if ds \<noteq> [] \<and> prefix '')'' (dropWhile is_digit r) then Some ds else None)
      else None)"

definition re_search_exit :: "string \<Rightarrow> string option" where
  "re_search_exit e = re_search exit_match_at e"

subsection \<open>Classification in \<open>main\<close>\<close>

definition no_activity_entry :: entry where
  "no_activity_entry =
     \<lparr>job = ''No fcron activity'', status = Missing,
      message = ''No fcron jobs ran in the last interval.''\<rparr>"

text \<open>The body of the loop over the events.\<close>

definition event_result :: "string \<Rightarrow> entry" where
  "event_result e =
     (let job_name = (case re_search_cmd e of Some g \<Rightarrow> g | None \<Rightarrow> ''Unknown job'')
      in if py_in ''EXIT STATUS'' e
         then (case re_search_exit e of
                 Some g \<Rightarrow>
                   if g \<noteq> ''0''
                   then \<lparr>job = job_name, status = Failed, message = fenced e\<rparr>
                   else \<lparr>job = job_name, status = Success, message = ''Ran successfully.''\<rparr>
               | None \<Rightarrow> \<lparr>job = job_name, status = Success, message = ''Ran successfully.''\<rparr>)
         else \<lparr>job = job_name, status = Success, message = ''Ran successfully.''\<rparr>)"

fun events_loop :: "string list \<Rightarrow> entry list \<Rightarrow> entry list" where
  "events_loop [] results = results"
| "events_loop (e # es) results = events_loop es (results @ [event_result e])"

definition fcron_results :: "string list \<Rightarrow> entry list" where
  "fcron_results logs =
     (let events = parse_fcron_logs logs
      in if events = [] then [no_activity_entry] else events_loop events [])"

definition fcron_main :: "string list \<Rightarrow> payload" where
  "fcron_main logs = send_discord_report (fcron_results logs)"

section \<open>Notions of the specification\<close>

text \<open>
  The specification speaks of the tokens \<open>CMD (...)\<close> and \<open>EXIT STATUS (n)\<close> of a log
  line and of the exit code as an integer. These definitions follow its words; they are
  compared with the code below. \<open>spec_cmd_token e n g\<close>: at offset \<open>n\<close> of the line \<open>e\<close>
  stands \<open>CMD (\<close>, then the text \<open>g\<close>, which stays on the line and holds no closing
  parenthesis, then the closing parenthesis. \<open>spec_exit_token e n ds\<close>: at offset \<open>n\<close>
  stands \<open>EXIT STATUS (\<close>, then the non-empty text \<open>ds\<close> of decimal digits, then the
  closing parenthesis. \<open>spec_exit_code ds\<close> is the integer that the digits denote.
\<close>

definition spec_cmd_token :: "string \<Rightarrow> nat \<Rightarrow> string \<Rightarrow> bool" where
  "spec_cmd_token e n g =
     (prefix (''CMD ('' @ g @ '')'') (drop n e) \<and> CHR '')'' \<notin> set g \<and> CHR 0x0A \<notin> set g)"

definition spec_exit_token :: "string \<Rightarrow> nat \<Rightarrow> string \<Rightarrow> bool" where
  "spec_exit_token e n ds =
     (prefix (''EXIT STATUS ('' @ ds @ '')'') (drop n e) \<and> ds \<noteq> [] \<and> list_all is_digit ds)"

text \<open>
  \<open>spec_failing_token e n\<close>: at offset \<open>n\<close> of the line \<open>e\<close> stands the token
  \<open>EXIT STATUS\<close>, and what follows it there is not \<open>(0)\<close>.
\<close>

definition spec_failing_token :: "string \<Rightarrow> nat \<Rightarrow> bool" where
  "spec_failing_token e n =
     (prefix ''EXIT STATUS'' (drop n e) \<and> \<not> prefix ''EXIT STATUS (0)'' (drop n e))"

definition spec_exit_code :: "string \<Rightarrow> nat" where
  "spec_exit_code ds = foldl (\<lambda>v c. 10 * v + (of_char c - 48)) 0 ds"

text \<open>
  \<open>spec_same_letter p c\<close>: the character \<open>c\<close> is the lower-case letter \<open>p\<close> or its
  capital, which stands 32 code points below it.
\<close>

definition spec_same_letter :: "char \<Rightarrow> char \<Rightarrow> bool" where
  "spec_same_letter p c = (c = p \<or> (of_char c :: nat) + 32 = of_char p)"

section \<open>Facts about the string operations and the loops\<close>

lemma py_in_sublist: "py_in sub s = sublist sub s"
  by (induction s) (auto simp: sublist_Cons_right)

lemma re_search_alt_iff: "re_search_alt alts s = list_ex (\<lambda>a. sublist a s) alts"
  by (induction s) (auto simp: list_ex_iff sublist_Cons_right)

lemma ci_prefix_iff: "ci_prefix pat s = prefix pat (map ascii_lower s)"
  by (induction pat s rule: ci_prefix.induct) auto

lemma re_search_ci_iff: "re_search_ci pat s = sublist pat (map ascii_lower s)"
  by (induction s) (auto simp: ci_prefix_iff sublist_Cons_right simp del: ci_prefix.simps)

lemma parse_logs_loop_eq:
  "parse_logs_loop logs events = events @ filter (re_search_alt [''CRON'', ''cron'', ''fcron'']) logs"
  by (induction logs arbitrary: events) simp_all

lemma parse_fcron_logs_loop_eq:
  "parse_fcron_logs_loop logs events = events @ filter (re_search_ci ''fcron'') logs"
  by (induction logs arbitrary: events) simp_all

lemma jobs_loop_eq: "jobs_loop js events results = results @ map (job_result events) js"
  by (induction js arbitrary: results) simp_all

lemma failures_loop_eq:
  "failures_loop es results = results @ map failure_entry (filter failure_line es)"
  by (induction es arbitrary: results) simp_all

lemma events_loop_eq: "events_loop es results = results @ map event_result es"
  by (induction es arbitrary: results) simp_all

lemma fields_loop_eq:
  "fields_loop rs fs =
     fs @ map (\<lambda>r. \<lparr>name_icon = status_icon (status r), name_job = job r,
                     field_value = message r, inline = False\<rparr>) rs"
  by (induction rs arbitrary: fs) simp_all

lemma crontab_loop_eq:
  "crontab_loop ls jobs =
     jobs @ map py_strip (filter (\<lambda>l. py_strip l \<noteq> [] \<and> \<not> prefix ''#'' l) ls)"
  by (induction ls arbitrary: jobs) simp_all

lemma py_split_tokens:
  "t \<in> set (py_split s) \<Longrightarrow> t \<noteq> [] \<and> (\<forall>c \<in> set t. \<not> is_space c)"
proof (induction s rule: py_split.induct)
  case (1 s)
  define r where "r = dropWhile is_space s"
  show ?case
  proof (cases "r = []")
    case True
    with "1.prems" show ?thesis by (simp add: py_split.simps[of s] r_def)
  next
    case False
    from False have hd: "\<not> is_space (hd r)" unfolding r_def by (rule hd_dropWhile)
    from False have "py_split s =
        takeWhile (\<lambda>c. \<not> is_space c) r # py_split (dropWhile (\<lambda>c. \<not> is_space c) r)"
      by (subst py_split.simps) (simp add: r_def Let_def)
    with "1.prems"
    have "t = takeWhile (\<lambda>c. \<not> is_space c) r \<or> t \<in> set (py_split (dropWhile (\<lambda>c. \<not> is_space c) r))"
      by simp
    then show ?thesis
    proof
      assume t: "t = takeWhile (\<lambda>c. \<not> is_space c) r"
      from False hd have "t \<noteq> []" unfolding t by (cases r) auto
      moreover have "\<forall>c \<in> set t. \<not> is_space c" unfolding t by (auto dest: set_takeWhileD)
      ultimately show ?thesis by simp
    next
      assume "t \<in> set (py_split (dropWhile (\<lambda>c. \<not> is_space c) r))"
      with "1.IH"[OF r_def False] show ?thesis by simp
    qed
  qed
qed

lemma py_split_Nil [simp]: "py_split [] = []"
  by (simp add: py_split.simps[of "[]"])

lemma py_split_space: "is_space c \<Longrightarrow> py_split (c # s) = py_split s"
  by (simp add: py_split.simps[of "c # s"] py_split.simps[of s])

lemma py_split_token:
  "t \<noteq> [] \<Longrightarrow> \<forall>c \<in> set t. \<not> is_space c \<Longrightarrow> (s = [] \<or> is_space (hd s)) \<Longrightarrow>
   py_split (t @ s) = t # py_split s"
proof -
  assume t: "t \<noteq> []" and ns: "\<forall>c \<in> set t. \<not> is_space c" and s: "s = [] \<or> is_space (hd s)"
  from t ns have d: "dropWhile is_space (t @ s) = t @ s" by (cases t) auto
  from ns s have tw: "takeWhile (\<lambda>c. \<not> is_space c) (t @ s) = t"
    by (cases s) auto
  from ns s have dw: "dropWhile (\<lambda>c. \<not> is_space c) (t @ s) = s"
    by (cases s) auto
  show ?thesis
    using t by (subst py_split.simps) (simp add: d tw dw Let_def)
qed

lemma space_is_space: "is_space CHR '' ''"
  by (simp add: is_space_def)

lemma py_split_join:
  "\<forall>t \<in> set ts. t \<noteq> [] \<and> (\<forall>c \<in> set t. \<not> is_space c) \<Longrightarrow> py_split (py_join '' '' ts) = ts"
proof (induction ts rule: induct_list012)
  case 1 show ?case by simp
next
  case (2 x)
  then show ?case using py_split_token[of x "[]"] by simp
next
  case More: (3 x y ys)
  have "py_split (x @ '' '' @ py_join '' '' (y # ys)) = x # py_split ('' '' @ py_join '' '' (y # ys))"
    using More.prems by (intro py_split_token) (simp_all add: space_is_space)
  also have "py_split ('' '' @ py_join '' '' (y # ys)) = py_split (py_join '' '' (y # ys))"
    by (simp add: py_split_space space_is_space)
  finally show ?case using More by simp
qed

section \<open>Facts about the two patterns with a group\<close>

lemma lazy_group_SomeD:
  "lazy_group s = Some g \<Longrightarrow> prefix (g @ '')'') s \<and> CHR '')'' \<notin> set g \<and> CHR 0x0A \<notin> set g"
  by (induction s arbitrary: g) (auto split: if_splits)

lemma lazy_group_SomeI:
  "CHR '')'' \<notin> set g \<Longrightarrow> CHR 0x0A \<notin> set g \<Longrightarrow> lazy_group (g @ '')'' @ ss) = Some g"
  by (induction g) auto

lemma lazy_group_iff:
  "lazy_group s = Some g \<longleftrightarrow> prefix (g @ '')'') s \<and> CHR '')'' \<notin> set g \<and> CHR 0x0A \<notin> set g"
  using lazy_group_SomeD lazy_group_SomeI by (auto simp: prefix_def)

lemma cmd_match_at_iff:
  "cmd_match_at s = Some g \<longleftrightarrow>
     prefix (''CMD ('' @ g @ '')'') s \<and> CHR '')'' \<notin> set g \<and> CHR 0x0A \<notin> set g"
proof (cases "prefix ''CMD ('' s")
  case True
  then obtain r where s: "s = ''CMD ('' @ r" by (auto simp: prefix_def)
  show ?thesis unfolding cmd_match_at_def s by (simp add: lazy_group_iff)
next
  case False
  then have "\<not> prefix (''CMD ('' @ g @ '')'') s"
    using append_prefixD by blast
  with False show ?thesis by (simp add: cmd_match_at_def)
qed

lemma re_search_None_iff:
  "re_search m e = None \<longleftrightarrow> (\<forall>n \<le> length e. m (drop n e) = None)"
proof (induction e)
  case Nil show ?case by simp
next
  case (Cons c cs)
  show ?case
  proof (cases "m (c # cs)")
    case None
    have "(\<forall>n \<le> length (c # cs). m (drop n (c # cs)) = None) \<longleftrightarrow>
          (\<forall>n \<le> length cs. m (drop n cs) = None)"
    proof
      assume a: "\<forall>n \<le> length (c # cs). m (drop n (c # cs)) = None"
      show "\<forall>n \<le> length cs. m (drop n cs) = None"
      proof (intro allI impI)
        fix n assume "n \<le> length cs"
        with a[rule_format, of "Suc n"] show "m (drop n cs) = None" by simp
      qed
    next
      assume a: "\<forall>n \<le> length cs. m (drop n cs) = None"
      show "\<forall>n \<le> length (c # cs). m (drop n (c # cs)) = None"
      proof (intro allI impI)
        fix n assume "n \<le> length (c # cs)"
        with a None show "m (drop n (c # cs)) = None" by (cases n) simp_all
      qed
    qed
    with None Cons show ?thesis by simp
  next
    case (Some g)
    then have "\<not> (\<forall>n \<le> length (c # cs). m (drop n (c # cs)) = None)"
      by (auto intro: exI[of _ 0])
    with Some show ?thesis by simp
  qed
qed

lemma re_search_Some_iff:
  "re_search m e = Some g \<longleftrightarrow>
     (\<exists>n \<le> length e. m (drop n e) = Some g \<and> (\<forall>k < n. m (drop k e) = None))"
proof (induction e)
  case Nil show ?case by simp
next
  case (Cons c cs)
  show ?case
  proof (cases "m (c # cs)")
    case None
    have "(\<exists>n \<le> length (c # cs). m (drop n (c # cs)) = Some g \<and> (\<forall>k < n. m (drop k (c # cs)) = None)) \<longleftrightarrow>
          (\<exists>n \<le> length cs. m (drop n cs) = Some g \<and> (\<forall>k < n. m (drop k cs) = None))"
      (is "?L \<longleftrightarrow> ?R")
    proof
      assume ?L
      then obtain n where n: "n \<le> length (c # cs)" "m (drop n (c # cs)) = Some g"
        "\<forall>k < n. m (drop k (c # cs)) = None" by blast
      from n(2) None obtain n' where n': "n = Suc n'" by (cases n) auto
      have "\<forall>k < n'. m (drop k cs) = None"
      proof (intro allI impI)
        fix k assume "k < n'"
        with n(3)[rule_format, of "Suc k"] n' show "m (drop k cs) = None" by simp
      qed
      with n n' show ?R by (intro exI[of _ n']) simp
    next
      assume ?R
      then obtain n where n: "n \<le> length cs" "m (drop n cs) = Some g"
        "\<forall>k < n. m (drop k cs) = None" by blast
      have "\<forall>k < Suc n. m (drop k (c # cs)) = None"
      proof (intro allI impI)
        fix k assume "k < Suc n"
        with n(3) None show "m (drop k (c # cs)) = None" by (cases k) simp_all
      qed
      with n show ?L by (intro exI[of _ "Suc n"]) simp
    qed
    with None Cons show ?thesis by simp
  next
    case (Some h)
    have "(\<exists>n \<le> length (c # cs). m (drop n (c # cs)) = Some g \<and> (\<forall>k < n. m (drop k (c # cs)) = None)) \<longleftrightarrow> h = g"
      (is "?L \<longleftrightarrow> _")
    proof
      assume ?L
      then obtain n where n: "m (drop n (c # cs)) = Some g"
        "\<forall>k < n. m (drop k (c # cs)) = None" by blast
      from n(2) Some have "n = 0" by (cases n) auto
      with n Some show "h = g" by simp
    next
      assume "h = g"
      with Some show ?L by (intro exI[of _ 0]) simp
    qed
    with Some show ?thesis by simp
  qed
qed

lemma not_digit_paren: "\<not> is_digit CHR '')''"
  by (simp add: is_digit_def)

lemma digit_run_iff:
  "takeWhile is_digit r = ds \<and> prefix '')'' (dropWhile is_digit r) \<longleftrightarrow>
     prefix (ds @ '')'') r \<and> list_all is_digit ds"
proof
  assume a: "takeWhile is_digit r = ds \<and> prefix '')'' (dropWhile is_digit r)"
  then obtain rest where rest: "dropWhile is_digit r = '')'' @ rest" by (auto simp: prefix_def)
  have "r = takeWhile is_digit r @ dropWhile is_digit r" by simp
  with a rest have "r = ds @ '')'' @ rest" by simp
  moreover from a have "list_all is_digit ds" by (auto simp: list_all_iff dest: set_takeWhileD)
  ultimately show "prefix (ds @ '')'') r \<and> list_all is_digit ds" by (auto simp: prefix_def)
next
  assume a: "prefix (ds @ '')'') r \<and> list_all is_digit ds"
  then obtain rest where r: "r = ds @ CHR '')'' # rest" by (auto simp: prefix_def)
  from a have d: "\<And>c. c \<in> set ds \<Longrightarrow> is_digit c" by (simp add: list_all_iff)
  show "takeWhile is_digit r = ds \<and> prefix '')'' (dropWhile is_digit r)"
    unfolding r using d by (simp add: not_digit_paren)
qed

lemma exit_match_at_iff:
  "exit_match_at s = Some ds \<longleftrightarrow>
     prefix (''EXIT STATUS ('' @ ds @ '')'') s \<and> ds \<noteq> [] \<and> list_all is_digit ds"
proof (cases "prefix ''EXIT STATUS ('' s")
  case True
  then obtain r where s: "s = ''EXIT STATUS ('' @ r" by (auto simp: prefix_def)
  have "exit_match_at s = Some ds \<longleftrightarrow>
        (takeWhile is_digit r = ds \<and> prefix '')'' (dropWhile is_digit r)) \<and> ds \<noteq> []"
    unfolding exit_match_at_def s by (auto simp: Let_def)
  also have "\<dots> \<longleftrightarrow> (prefix (ds @ '')'') r \<and> list_all is_digit ds) \<and> ds \<noteq> []"
    by (simp only: digit_run_iff)
  finally show ?thesis unfolding s by auto
next
  case False
  then have "\<not> prefix (''EXIT STATUS ('' @ ds @ '')'') s"
    using append_prefixD by blast
  with False show ?thesis by (simp add: exit_match_at_def)
qed

lemma cmd_match_token: "cmd_match_at (drop n e) = Some g \<longleftrightarrow> spec_cmd_token e n g"
  by (simp add: cmd_match_at_iff spec_cmd_token_def)

lemma exit_match_token: "exit_match_at (drop n e) = Some ds \<longleftrightarrow> spec_exit_token e n ds"
  by (simp add: exit_match_at_iff spec_exit_token_def)

lemma cmd_token_bound: "spec_cmd_token e n g \<Longrightarrow> n < length e"
  by (rule ccontr) (simp add: spec_cmd_token_def)

lemma exit_token_bound: "spec_exit_token e n ds \<Longrightarrow> n < length e"
  by (rule ccontr) (simp add: spec_exit_token_def)

lemma re_search_cmd_None: "re_search_cmd e = None \<longleftrightarrow> (\<forall>n g. \<not> spec_cmd_token e n g)"
proof
  assume a: "re_search_cmd e = None"
  show "\<forall>n g. \<not> spec_cmd_token e n g"
  proof (intro allI notI)
    fix n g assume t: "spec_cmd_token e n g"
    then have "n \<le> length e" using cmd_token_bound by fastforce
    with a have "cmd_match_at (drop n e) = None"
      by (simp add: re_search_cmd_def re_search_None_iff)
    with t show False by (simp add: cmd_match_token[symmetric])
  qed
next
  assume a: "\<forall>n g. \<not> spec_cmd_token e n g"
  have "\<forall>n \<le> length e. cmd_match_at (drop n e) = None"
  proof (intro allI impI)
    fix n
    show "cmd_match_at (drop n e) = None"
      using a cmd_match_token[of n e] by (cases "cmd_match_at (drop n e)") auto
  qed
  then show "re_search_cmd e = None"
    by (simp add: re_search_cmd_def re_search_None_iff)
qed

lemma re_search_cmd_Some:
  "re_search_cmd e = Some g \<longleftrightarrow>
     (\<exists>n. spec_cmd_token e n g \<and> (\<forall>m h. spec_cmd_token e m h \<longrightarrow> n \<le> m))"
proof
  assume "re_search_cmd e = Some g"
  then obtain n where n: "cmd_match_at (drop n e) = Some g"
      "\<forall>k < n. cmd_match_at (drop k e) = None"
    by (auto simp: re_search_cmd_def re_search_Some_iff)
  have "\<forall>m h. spec_cmd_token e m h \<longrightarrow> n \<le> m"
  proof (intro allI impI)
    fix m h assume "spec_cmd_token e m h"
    then have "cmd_match_at (drop m e) = Some h" by (simp add: cmd_match_token)
    with n(2) show "n \<le> m" by (cases "m < n") auto
  qed
  with n(1) show "\<exists>n. spec_cmd_token e n g \<and> (\<forall>m h. spec_cmd_token e m h \<longrightarrow> n \<le> m)"
    by (auto simp: cmd_match_token)
next
  assume "\<exists>n. spec_cmd_token e n g \<and> (\<forall>m h. spec_cmd_token e m h \<longrightarrow> n \<le> m)"
  then obtain n where n: "spec_cmd_token e n g" "\<forall>m h. spec_cmd_token e m h \<longrightarrow> n \<le> m"
    by blast
  have "\<forall>k < n. cmd_match_at (drop k e) = None"
  proof (intro allI impI)
    fix k assume k: "k < n"
    show "cmd_match_at (drop k e) = None"
    proof (cases "cmd_match_at (drop k e)")
      case (Some h)
      then have "spec_cmd_token e k h" by (simp add: cmd_match_token)
      with n(2) k show ?thesis by fastforce
    qed simp
  qed
  moreover from n(1) have "n \<le> length e" using cmd_token_bound by fastforce
  ultimately show "re_search_cmd e = Some g"
    using n(1) by (auto simp: re_search_cmd_def re_search_Some_iff cmd_match_token)
qed

lemma re_search_exit_None: "re_search_exit e = None \<longleftrightarrow> (\<forall>n ds. \<not> spec_exit_token e n ds)"
proof
  assume a: "re_search_exit e = None"
  show "\<forall>n ds. \<not> spec_exit_token e n ds"
  proof (intro allI notI)
    fix n ds assume t: "spec_exit_token e n ds"
    then have "n \<le> length e" using exit_token_bound by fastforce
    with a have "exit_match_at (drop n e) = None"
      by (simp add: re_search_exit_def re_search_None_iff)
    with t show False by (simp add: exit_match_token[symmetric])
  qed
next
  assume a: "\<forall>n ds. \<not> spec_exit_token e n ds"
  have "\<forall>n \<le> length e. exit_match_at (drop n e) = None"
  proof (intro allI impI)
    fix n
    show "exit_match_at (drop n e) = None"
      using a exit_match_token[of n e] by (cases "exit_match_at (drop n e)") auto
  qed
  then show "re_search_exit e = None"
    by (simp add: re_search_exit_def re_search_None_iff)
qed

lemma re_search_exit_Some:
  "re_search_exit e = Some ds \<longleftrightarrow>
     (\<exists>n. spec_exit_token e n ds \<and> (\<forall>m h. spec_exit_token e m h \<longrightarrow> n \<le> m))"
proof
  assume "re_search_exit e = Some ds"
  then obtain n where n: "exit_match_at (drop n e) = Some ds"
      "\<forall>k < n. exit_match_at (drop k e) = None"
    by (auto simp: re_search_exit_def re_search_Some_iff)
  have "\<forall>m h. spec_exit_token e m h \<longrightarrow> n \<le> m"
  proof (intro allI impI)
    fix m h assume "spec_exit_token e m h"
    then have "exit_match_at (drop m e) = Some h" by (simp add: exit_match_token)
    with n(2) show "n \<le> m" by (cases "m < n") auto
  qed
  with n(1) show "\<exists>n. spec_exit_token e n ds \<and> (\<forall>m h. spec_exit_token e m h \<longrightarrow> n \<le> m)"
    by (auto simp: exit_match_token)
next
  assume "\<exists>n. spec_exit_token e n ds \<and> (\<forall>m h. spec_exit_token e m h \<longrightarrow> n \<le> m)"
  then obtain n where n: "spec_exit_token e n ds" "\<forall>m h. spec_exit_token e m h \<longrightarrow> n \<le> m"
    by blast
  have "\<forall>k < n. exit_match_at (drop k e) = None"
  proof (intro allI impI)
    fix k assume k: "k < n"
    show "exit_match_at (drop k e) = None"
    proof (cases "exit_match_at (drop k e)")
      case (Some h)
      then have "spec_exit_token e k h" by (simp add: exit_match_token)
      with n(2) k show ?thesis by fastforce
    qed simp
  qed
  moreover from n(1) have "n \<le> length e" using exit_token_bound by fastforce
  ultimately show "re_search_exit e = Some ds"
    using n(1) by (auto simp: re_search_exit_def re_search_Some_iff exit_match_token)
qed

lemma exit_token_marker: "spec_exit_token e n ds \<Longrightarrow> py_in ''EXIT STATUS'' e"
proof -
  assume "spec_exit_token e n ds"
  then obtain rest where "drop n e = ''EXIT STATUS'' @ ('' ('' @ ds @ '')'' @ rest)"
    by (auto simp: spec_exit_token_def prefix_def)
  then have "e = take n e @ ''EXIT STATUS'' @ ('' ('' @ ds @ '')'' @ rest)"
    by (metis append_take_drop_id)
  then have "sublist ''EXIT STATUS'' e" unfolding sublist_def by blast
  then show ?thesis by (simp add: py_in_sublist)
qed

lemma job_event_result:
  "job (event_result e) = (case re_search_cmd e of Some g \<Rightarrow> g | None \<Rightarrow> ''Unknown job'')"
  by (simp add: event_result_def Let_def split: option.splits)

lemma event_result_no_token:
  "re_search_exit e = None \<Longrightarrow>
   status (event_result e) = Success \<and> message (event_result e) = ''Ran successfully.''"
  by (simp add: event_result_def Let_def)

lemma event_result_token:
  "re_search_exit e = Some ds \<Longrightarrow>
   (if ds = ''0''
    then status (event_result e) = Success \<and> message (event_result e) = ''Ran successfully.''
    else status (event_result e) = Failed \<and> message (event_result e) = fenced e)"
proof -
  assume a: "re_search_exit e = Some ds"
  then have "py_in ''EXIT STATUS'' e"
    using exit_token_marker by (auto simp: re_search_exit_Some)
  with a show ?thesis by (simp add: event_result_def Let_def)
qed

section \<open>The results of the two engines as lists\<close>

lemma parse_logs_eq:
  "parse_logs logs = filter (re_search_alt [''CRON'', ''cron'', ''fcron'']) logs"
  by (simp add: parse_logs_def parse_logs_loop_eq)

lemma parse_fcron_logs_eq: "parse_fcron_logs logs = filter (re_search_ci ''fcron'') logs"
  by (simp add: parse_fcron_logs_def parse_fcron_logs_loop_eq)

lemma cron_results_eq:
  "cron_results jobs logs =
     (if jobs = [] then [no_crontab_entry] else map (job_result (parse_logs logs)) jobs)
     @ map failure_entry (filter failure_line (parse_logs logs))"
  by (simp add: cron_results_def Let_def jobs_loop_eq failures_loop_eq)

lemma fcron_results_eq:
  "fcron_results logs =
     (if parse_fcron_logs logs = [] then [no_activity_entry]
      else map event_result (parse_fcron_logs logs))"
  by (simp add: fcron_results_def Let_def events_loop_eq)

lemma failure_line_iff:
  "failure_line e \<longleftrightarrow> sublist ''EXIT STATUS'' e \<and> \<not> sublist ''EXIT STATUS (0)'' e"
  by (simp add: failure_line_def py_in_sublist re_search_alt_iff)

text \<open>
  The check looks at the whole line: a line with two exit-status tokens, one of them
  \<open>(0)\<close>, is no failure line, whatever the other token says.
\<close>

lemma failure_line_two_tokens:
  "\<not> failure_line ''cron: a EXIT STATUS (1) b EXIT STATUS (0)''"
  by code_simp

lemma job_result_job: "job (job_result events j) = job_cmd j"
  by (simp add: job_result_def Let_def)

lemma job_result_status:
  "status (job_result events j) =
     (if \<exists>e \<in> set events. sublist (job_cmd j) e then Success else Missing)"
  by (simp add: job_result_def Let_def list_ex_iff py_in_sublist)

lemma cron_results_nth:
  "i < length jobs \<Longrightarrow> cron_results jobs logs ! i = job_result (parse_logs logs) (jobs ! i)"
  by (auto simp: cron_results_eq nth_append)

lemma sublist_fenced: "sublist e (fenced e)"
  unfolding fenced_def sublist_def by (metis append.assoc)

lemma job_cmd_short: "length (py_split l) < 6 \<Longrightarrow> job_cmd l = []"
  by (simp add: job_cmd_def)

lemma embed_color_cases:
  "embed_color rs =
     (if \<exists>r \<in> set rs. status r = Failed then 0xE74C3C
      else if \<exists>r \<in> set rs. status r = Missing then 0xE67E22 else 0x2ECC71)"
  by (simp add: embed_color_def list_ex_iff)

lemma color_send: "color (send_discord_report rs) = embed_color rs"
  by (simp add: send_discord_report_def)

lemma field_list_send:
  "field_list (send_discord_report rs) =
     map (\<lambda>r. \<lparr>name_icon = status_icon (status r), name_job = job r,
                 field_value = message r, inline = False\<rparr>) rs"
  by (simp add: send_discord_report_def fields_loop_eq)

lemma all_success_iff:
  "(\<forall>r \<in> set rs. status r = Success) \<longleftrightarrow>
     \<not> (\<exists>r \<in> set rs. status r = Failed) \<and> \<not> (\<exists>r \<in> set rs. status r = Missing)"
proof -
  have "s = Success \<longleftrightarrow> s \<noteq> Failed \<and> s \<noteq> Missing" for s :: Status
    by (cases s) simp_all
  then show ?thesis by blast
qed

lemma sublist_map_iff:
  "sublist pat (map f l) \<longleftrightarrow> (\<exists>m. sublist m l \<and> map f m = pat)"
proof
  assume "sublist pat (map f l)"
  then obtain ps ss where "map f l = ps @ pat @ ss" by (auto simp: sublist_def)
  then obtain us vs where 1: "l = us @ vs" "pat @ ss = map f vs"
    by (auto simp: map_eq_append_conv)
  from 1(2) obtain ms ts where 2: "vs = ms @ ts" "pat = map f ms"
    by (auto simp: append_eq_map_conv)
  from 1(1) 2 have "sublist ms l \<and> map f ms = pat" by (auto simp: sublist_def)
  then show "\<exists>m. sublist m l \<and> map f m = pat" by blast
next
  assume "\<exists>m. sublist m l \<and> map f m = pat"
  then show "sublist pat (map f l)" using map_mono_sublist by blast
qed

lemma ascii_lower_letter:
  assumes "97 \<le> (of_char p :: nat)" "(of_char p :: nat) \<le> 122"
  shows "ascii_lower c = p \<longleftrightarrow> spec_same_letter p c"
proof (cases "65 \<le> (of_char c :: nat) \<and> (of_char c :: nat) \<le> 90")
  case True
  then have l: "ascii_lower c = char_of ((of_char c :: nat) + 32)"
    by (simp add: ascii_lower_def Let_def)
  have "char_of ((of_char c :: nat) + 32) = p \<longleftrightarrow> (of_char c :: nat) + 32 = of_char p"
  proof
    assume "char_of ((of_char c :: nat) + 32) = p"
    then have "(of_char (char_of ((of_char c :: nat) + 32)) :: nat) = of_char p"
      by simp
    with True show "(of_char c :: nat) + 32 = of_char p" by (simp add: of_char_of)
  next
    assume "(of_char c :: nat) + 32 = of_char p"
    then show "char_of ((of_char c :: nat) + 32) = p" by simp
  qed
  moreover from True assms have "c \<noteq> p" by auto
  ultimately show ?thesis by (simp add: l spec_same_letter_def)
next
  case False
  then have "ascii_lower c = c" by (auto simp: ascii_lower_def Let_def)
  moreover from False assms have "(of_char c :: nat) + 32 \<noteq> of_char p" by auto
  ultimately show ?thesis by (auto simp: spec_same_letter_def)
qed

lemma lower_match_iff:
  "\<forall>p \<in> set pat. 97 \<le> (of_char p :: nat) \<and> (of_char p :: nat) \<le> 122 \<Longrightarrow>
   map ascii_lower m = pat \<longleftrightarrow> list_all2 spec_same_letter pat m"
proof (induction pat arbitrary: m)
  case Nil
  show ?case by simp
next
  case (Cons p ps)
  show ?case
  proof (cases m)
    case Nil
    then show ?thesis by simp
  next
    case (Cons c cs)
    from Cons.prems have "ascii_lower c = p \<longleftrightarrow> spec_same_letter p c"
      by (intro ascii_lower_letter) simp_all
    moreover from Cons.prems have "map ascii_lower cs = ps \<longleftrightarrow> list_all2 spec_same_letter ps cs"
      by (intro Cons.IH) simp
    ultimately show ?thesis using Cons by simp
  qed
qed

lemma fcron_letters:
  "\<forall>p \<in> set ''fcron''. 97 \<le> (of_char p :: nat) \<and> (of_char p :: nat) \<le> 122"
  by simp

lemma re_search_ci_fcron:
  "re_search_ci ''fcron'' l \<longleftrightarrow> (\<exists>m. sublist m l \<and> list_all2 spec_same_letter ''fcron'' m)"
  using lower_match_iff [OF fcron_letters]
  by (simp only: re_search_ci_iff sublist_map_iff)

lemma re_search_cron_alt:
  "re_search_alt [''CRON'', ''cron'', ''fcron''] l \<longleftrightarrow>
     sublist ''CRON'' l \<or> sublist ''cron'' l \<or> sublist ''fcron'' l"
  by (simp add: re_search_alt_iff)

lemma concat_py_split: "concat (py_split s) = filter (\<lambda>c. \<not> is_space c) s"
proof (induction s rule: py_split.induct)
  case (1 s)
  define r where "r = dropWhile is_space s"
  have "s = takeWhile is_space s @ r" by (simp add: r_def)
  then have "filter (\<lambda>c. \<not> is_space c) s =
      filter (\<lambda>c. \<not> is_space c) (takeWhile is_space s) @ filter (\<lambda>c. \<not> is_space c) r"
    by (metis filter_append)
  moreover have "filter (\<lambda>c. \<not> is_space c) (takeWhile is_space s) = []"
    by (auto simp: filter_empty_conv dest: set_takeWhileD)
  ultimately have fs: "filter (\<lambda>c. \<not> is_space c) s = filter (\<lambda>c. \<not> is_space c) r"
    by simp
  show ?case
  proof (cases "r = []")
    case True
    then have "py_split s = []" by (subst py_split.simps) (simp add: r_def)
    with True fs show ?thesis by simp
  next
    case False
    then have ps: "py_split s =
        takeWhile (\<lambda>c. \<not> is_space c) r # py_split (dropWhile (\<lambda>c. \<not> is_space c) r)"
      by (subst py_split.simps) (simp add: r_def Let_def)
    have "r = takeWhile (\<lambda>c. \<not> is_space c) r @ dropWhile (\<lambda>c. \<not> is_space c) r"
      by simp
    then have "filter (\<lambda>c. \<not> is_space c) r =
        filter (\<lambda>c. \<not> is_space c) (takeWhile (\<lambda>c. \<not> is_space c) r)
        @ filter (\<lambda>c. \<not> is_space c) (dropWhile (\<lambda>c. \<not> is_space c) r)"
      by (metis filter_append)
    moreover have "filter (\<lambda>c. \<not> is_space c) (takeWhile (\<lambda>c. \<not> is_space c) r) =
        takeWhile (\<lambda>c. \<not> is_space c) r"
      by (auto simp: filter_id_conv dest: set_takeWhileD)
    ultimately show ?thesis
      using "1.IH"[OF r_def False] fs ps by simp
  qed
qed

lemma py_join_Nil_iff:
  "\<forall>t \<in> set ts. t \<noteq> [] \<Longrightarrow> py_join sep ts = [] \<longleftrightarrow> ts = []"
  by (induction sep ts rule: py_join.induct) auto

lemma drop_tokens:
  "t \<in> set (drop n (py_split l)) \<Longrightarrow> t \<noteq> [] \<and> (\<forall>c \<in> set t. \<not> is_space c)"
  using py_split_tokens in_set_dropD by fast

lemma job_failure_entry: "job (failure_entry e) = ''Failure detected''"
  by (simp add: failure_entry_def)

section \<open>The claims\<close>

text \<open>
  Claim C1 (cron flavor). The entry of the \<open>i\<close>-th declared job carries the command
  label of that job, and its status is Success when the label is a literal substring of
  at least one extracted event and Missing otherwise; so with no extracted event every
  per-job entry is Missing.
\<close>

theorem C1_job_status:
  assumes "i < length jobs"
  shows "job (cron_results jobs logs ! i) = job_cmd (jobs ! i)
       \<and> status (cron_results jobs logs ! i) =
           (if \<exists>e \<in> set (parse_logs logs). sublist (job_cmd (jobs ! i)) e
            then Success else Missing)
       \<and> (parse_logs logs = [] \<longrightarrow> status (cron_results jobs logs ! i) = Missing)"
  using assms by (simp add: cron_results_nth job_result_job job_result_status)

theorem C1_job_status_witness:
  "job (cron_results [''*/5 * * * * /usr/bin/backup.sh'']
          [''CRON[123]: (root) CMD (/usr/bin/backup.sh)''] ! 0) = ''/usr/bin/backup.sh''
   \<and> status (cron_results [''*/5 * * * * /usr/bin/backup.sh'']
          [''CRON[123]: (root) CMD (/usr/bin/backup.sh)''] ! 0) = Success
   \<and> status (cron_results [''*/5 * * * * /usr/bin/backup.sh''] [] ! 0) = Missing"
proof -
  have i: "0 < length [''*/5 * * * * /usr/bin/backup.sh'']"
    by simp
  have lbl: "job_cmd ([''*/5 * * * * /usr/bin/backup.sh''] ! 0) = ''/usr/bin/backup.sh''"
    by code_simp
  have ran: "\<exists>e \<in> set (parse_logs [''CRON[123]: (root) CMD (/usr/bin/backup.sh)'']).
               sublist ''/usr/bin/backup.sh'' e"
    by code_simp
  have none: "parse_logs [] = []"
    by (simp add: parse_logs_def)
  show ?thesis
    using C1_job_status [OF i, of "[''CRON[123]: (root) CMD (/usr/bin/backup.sh)'']"]
      C1_job_status [OF i, of "[]"] lbl ran none
    by simp
qed

text \<open>
  Claim C2 (cron flavor), as the code has it. The check is one on the whole line, not on
  each token. Behind the per-job entries, which stay as they are, the results hold one
  entry for every extracted event whose line contains \<open>EXIT STATUS\<close> and nowhere contains
  \<open>EXIT STATUS (0)\<close>, in the order of the events, with the label \<open>Failure detected\<close>,
  the status Failed and the raw line verbatim inside the message. These are all the
  Failed entries: an event without \<open>EXIT STATUS\<close>, or with \<open>EXIT STATUS (0)\<close> anywhere
  in its line, adds none.
\<close>

theorem C2_failure_entries:
  "cron_results jobs logs =
     (if jobs = [] then [no_crontab_entry] else map (job_result (parse_logs logs)) jobs)
     @ map (\<lambda>e. \<lparr>job = ''Failure detected'', status = Failed, message = fenced e\<rparr>)
         (filter (\<lambda>e. sublist ''EXIT STATUS'' e \<and> \<not> sublist ''EXIT STATUS (0)'' e)
            (parse_logs logs))
   \<and> filter (\<lambda>r. status r = Failed) (cron_results jobs logs) =
       map (\<lambda>e. \<lparr>job = ''Failure detected'', status = Failed, message = fenced e\<rparr>)
         (filter (\<lambda>e. sublist ''EXIT STATUS'' e \<and> \<not> sublist ''EXIT STATUS (0)'' e)
            (parse_logs logs))
   \<and> sublist e (fenced e)"
proof -
  have fl: "failure_line = (\<lambda>e. sublist ''EXIT STATUS'' e \<and> \<not> sublist ''EXIT STATUS (0)'' e)"
    by (rule ext) (rule failure_line_iff)
  have fe: "failure_entry = (\<lambda>e. \<lparr>job = ''Failure detected'', status = Failed, message = fenced e\<rparr>)"
    by (rule ext) (simp add: failure_entry_def)
  have eq: "cron_results jobs logs =
     (if jobs = [] then [no_crontab_entry] else map (job_result (parse_logs logs)) jobs)
     @ map (\<lambda>e. \<lparr>job = ''Failure detected'', status = Failed, message = fenced e\<rparr>)
         (filter (\<lambda>e. sublist ''EXIT STATUS'' e \<and> \<not> sublist ''EXIT STATUS (0)'' e)
            (parse_logs logs))"
    by (simp only: cron_results_eq fl fe)
  have nf: "filter (\<lambda>r. status r = Failed)
      (if jobs = [] then [no_crontab_entry] else map (job_result (parse_logs logs)) jobs) = []"
    by (simp add: no_crontab_entry_def filter_empty_conv job_result_status)
  have af: "filter (\<lambda>r. status r = Failed)
      (map (\<lambda>e. \<lparr>job = ''Failure detected'', status = Failed, message = fenced e\<rparr>) es) =
      map (\<lambda>e. \<lparr>job = ''Failure detected'', status = Failed, message = fenced e\<rparr>) es" for es
    by (induction es) simp_all
  have "filter (\<lambda>r. status r = Failed) (cron_results jobs logs) =
       map (\<lambda>e. \<lparr>job = ''Failure detected'', status = Failed, message = fenced e\<rparr>)
         (filter (\<lambda>e. sublist ''EXIT STATUS'' e \<and> \<not> sublist ''EXIT STATUS (0)'' e)
            (parse_logs logs))"
    by (subst eq) (simp only: filter_append nf af append_Nil)
  with eq sublist_fenced show ?thesis by blast
qed

theorem C2_failure_entries_witness:
  "cron_results [''*/5 * * * * job1'']
     [''cron: CMD (job1)'', ''cron: EXIT STATUS (1)'', ''cron: EXIT STATUS (0)'', ''x EXIT STATUS (2)''] =
   [\<lparr>job = ''job1'', status = Success, message = ''Ran successfully in last 10 minutes.''\<rparr>,
    \<lparr>job = ''Failure detected'', status = Failed, message = fenced ''cron: EXIT STATUS (1)''\<rparr>]"
proof -
  have ev: "parse_logs [''cron: CMD (job1)'', ''cron: EXIT STATUS (1)'', ''cron: EXIT STATUS (0)'', ''x EXIT STATUS (2)'']
      = [''cron: CMD (job1)'', ''cron: EXIT STATUS (1)'', ''cron: EXIT STATUS (0)'']"
    by code_simp
  have jr: "job_result [''cron: CMD (job1)'', ''cron: EXIT STATUS (1)'', ''cron: EXIT STATUS (0)''] ''*/5 * * * * job1''
      = \<lparr>job = ''job1'', status = Success, message = ''Ran successfully in last 10 minutes.''\<rparr>"
    by code_simp
  have f: "filter (\<lambda>e. sublist ''EXIT STATUS'' e \<and> \<not> sublist ''EXIT STATUS (0)'' e)
      [''cron: CMD (job1)'', ''cron: EXIT STATUS (1)'', ''cron: EXIT STATUS (0)''] = [''cron: EXIT STATUS (1)'']"
    by code_simp
  have "cron_results [''*/5 * * * * job1'']
     [''cron: CMD (job1)'', ''cron: EXIT STATUS (1)'', ''cron: EXIT STATUS (0)'', ''x EXIT STATUS (2)''] =
     (if [''*/5 * * * * job1''] = [] then [no_crontab_entry]
      else map (job_result (parse_logs [''cron: CMD (job1)'', ''cron: EXIT STATUS (1)'', ''cron: EXIT STATUS (0)'', ''x EXIT STATUS (2)'']))
             [''*/5 * * * * job1''])
     @ map (\<lambda>e. \<lparr>job = ''Failure detected'', status = Failed, message = fenced e\<rparr>)
         (filter (\<lambda>e. sublist ''EXIT STATUS'' e \<and> \<not> sublist ''EXIT STATUS (0)'' e)
            (parse_logs [''cron: CMD (job1)'', ''cron: EXIT STATUS (1)'', ''cron: EXIT STATUS (0)'', ''x EXIT STATUS (2)'']))"
    using C2_failure_entries [of "[''*/5 * * * * job1'']"
      "[''cron: CMD (job1)'', ''cron: EXIT STATUS (1)'', ''cron: EXIT STATUS (0)'', ''x EXIT STATUS (2)'']" "[]"]
    by (rule conjunct1)
  then show ?thesis
    unfolding ev f by (simp add: jr)
qed

text \<open>
  Claim C2 as the specification states it gives an entry to every extracted event whose
  line holds an \<open>EXIT STATUS\<close> token that is not followed by \<open>(0)\<close>. The line below is
  extracted and holds such a token at offset 8, the one followed by \<open>(1)\<close>; it also holds
  \<open>EXIT STATUS (0)\<close>, and no Failed entry is made for it.
\<close>

theorem C2_counterexample:
  "parse_logs [''cron: a EXIT STATUS (1) b EXIT STATUS (0)'']
     = [''cron: a EXIT STATUS (1) b EXIT STATUS (0)'']
   \<and> spec_failing_token ''cron: a EXIT STATUS (1) b EXIT STATUS (0)'' 8
   \<and> filter (\<lambda>r. status r = Failed)
        (cron_results [''* * * * * a''] [''cron: a EXIT STATUS (1) b EXIT STATUS (0)'']) = []"
  by code_simp

text \<open>
  Claim C4 (both flavors). The colour of the embed stands for the overall severity: red
  (0xE74C3C) for Failed, orange (0xE67E22) for Missing, green (0x2ECC71) for Success. It
  is red exactly when some entry is Failed, orange exactly when none is Failed and some
  entry is Missing, green exactly when every entry is Success, so also for no entry at
  all; it depends only on which statuses occur, not on their order or number.
\<close>

theorem C4_overall_severity:
  "(color (send_discord_report rs) = 0xE74C3C \<longleftrightarrow> (\<exists>r \<in> set rs. status r = Failed))
   \<and> (color (send_discord_report rs) = 0xE67E22 \<longleftrightarrow>
        \<not> (\<exists>r \<in> set rs. status r = Failed) \<and> (\<exists>r \<in> set rs. status r = Missing))
   \<and> (color (send_discord_report rs) = 0x2ECC71 \<longleftrightarrow> (\<forall>r \<in> set rs. status r = Success))
   \<and> color (send_discord_report []) = 0x2ECC71
   \<and> (set (map status rs) = set (map status rs') \<longrightarrow>
        color (send_discord_report rs) = color (send_discord_report rs'))"
proof -
  have a: "color (send_discord_report rs) = 0xE74C3C \<longleftrightarrow> (\<exists>r \<in> set rs. status r = Failed)"
    by (simp add: color_send embed_color_cases)
  have b: "color (send_discord_report rs) = 0xE67E22 \<longleftrightarrow>
        \<not> (\<exists>r \<in> set rs. status r = Failed) \<and> (\<exists>r \<in> set rs. status r = Missing)"
    by (simp add: color_send embed_color_cases)
  have c: "color (send_discord_report rs) = 0x2ECC71 \<longleftrightarrow> (\<forall>r \<in> set rs. status r = Success)"
    unfolding all_success_iff by (simp add: color_send embed_color_cases)
  have d: "color (send_discord_report []) = 0x2ECC71"
    by (simp add: color_send embed_color_cases)
  have e: "color (send_discord_report rs) = color (send_discord_report rs')"
    if "set (map status rs) = set (map status rs')"
  proof -
    have "(\<exists>r \<in> set xs. status r = s) \<longleftrightarrow> s \<in> set (map status xs)" for xs :: "entry list" and s
      by auto
    with that show ?thesis by (simp add: color_send embed_color_cases)
  qed
  from a b c d e show ?thesis by blast
qed

theorem C4_overall_severity_witness:
  "color (send_discord_report
      [\<lparr>job = ''a'', status = Success, message = ''m''\<rparr>,
       \<lparr>job = ''b'', status = Failed, message = ''m''\<rparr>,
       \<lparr>job = ''c'', status = Missing, message = ''m''\<rparr>]) = 0xE74C3C
   \<and> color (send_discord_report
      [\<lparr>job = ''c'', status = Missing, message = ''m''\<rparr>,
       \<lparr>job = ''b'', status = Failed, message = ''m''\<rparr>,
       \<lparr>job = ''b'', status = Failed, message = ''m''\<rparr>,
       \<lparr>job = ''a'', status = Success, message = ''m''\<rparr>]) = 0xE74C3C"
proof -
  have s: "set (map status
      [\<lparr>job = ''a'', status = Success, message = ''m''\<rparr>,
       \<lparr>job = ''b'', status = Failed, message = ''m''\<rparr>,
       \<lparr>job = ''c'', status = Missing, message = ''m''\<rparr>]) =
     set (map status
      [\<lparr>job = ''c'', status = Missing, message = ''m''\<rparr>,
       \<lparr>job = ''b'', status = Failed, message = ''m''\<rparr>,
       \<lparr>job = ''b'', status = Failed, message = ''m''\<rparr>,
       \<lparr>job = ''a'', status = Success, message = ''m''\<rparr>])"
    by auto
  have f: "\<exists>r \<in> set
      [\<lparr>job = ''a'', status = Success, message = ''m''\<rparr>,
       \<lparr>job = ''b'', status = Failed, message = ''m''\<rparr>,
       \<lparr>job = ''c'', status = Missing, message = ''m''\<rparr>]. status r = Failed"
    by simp
  show ?thesis
    using C4_overall_severity
      [of "[\<lparr>job = ''a'', status = Success, message = ''m''\<rparr>,
            \<lparr>job = ''b'', status = Failed, message = ''m''\<rparr>,
            \<lparr>job = ''c'', status = Missing, message = ''m''\<rparr>]"
          "[\<lparr>job = ''c'', status = Missing, message = ''m''\<rparr>,
            \<lparr>job = ''b'', status = Failed, message = ''m''\<rparr>,
            \<lparr>job = ''b'', status = Failed, message = ''m''\<rparr>,
            \<lparr>job = ''a'', status = Success, message = ''m''\<rparr>]"] s f
    by metis
qed

text \<open>
  The empty job list, once the log lines were read. When \<open>crontab\<close> is not installed or
  lists nothing, the job list is empty; then the results start with the one entry
  \<open>No user crontab\<close> with status Missing, and no other entry has that label. When no
  event was extracted either, this is the only entry, the report has one field and its
  colour is the one of Missing.
\<close>

lemma no_jobs_results:
  "get_crontab CommandNotFound = []
   \<and> get_crontab CalledProcessError = []
   \<and> cron_results [] logs =
       \<lparr>job = ''No user crontab'', status = Missing, message = message no_crontab_entry\<rparr>
       # map failure_entry (filter failure_line (parse_logs logs))
   \<and> length (filter (\<lambda>r. job r = ''No user crontab'') (cron_results [] logs)) = 1
   \<and> (parse_logs logs = [] \<longrightarrow>
        cron_results [] logs =
          [\<lparr>job = ''No user crontab'', status = Missing, message = message no_crontab_entry\<rparr>]
        \<and> color (cron_main CommandNotFound logs) = 0xE67E22
        \<and> length (field_list (cron_main CommandNotFound logs)) = 1)"
proof -
  have e: "no_crontab_entry =
      \<lparr>job = ''No user crontab'', status = Missing, message = message no_crontab_entry\<rparr>"
    by (simp add: no_crontab_entry_def)
  have r: "cron_results [] logs =
       \<lparr>job = ''No user crontab'', status = Missing, message = message no_crontab_entry\<rparr>
       # map failure_entry (filter failure_line (parse_logs logs))"
    using e by (simp add: cron_results_eq)
  have n: "filter (\<lambda>r. job r = ''No user crontab'') (map failure_entry es) = []" for es
    by (induction es) (simp_all add: failure_entry_def)
  have one: "length (filter (\<lambda>r. job r = ''No user crontab'') (cron_results [] logs)) = 1"
    by (simp add: r n)
  have last: "cron_results [] logs =
          [\<lparr>job = ''No user crontab'', status = Missing, message = message no_crontab_entry\<rparr>]
        \<and> color (cron_main CommandNotFound logs) = 0xE67E22
        \<and> length (field_list (cron_main CommandNotFound logs)) = 1"
    if "parse_logs logs = []"
    using that by (simp add: r cron_main_def color_send embed_color_cases field_list_send)
  from r one last show ?thesis by simp
qed

lemma no_jobs_results_example:
  "cron_results [] [''kernel: boot''] =
     [\<lparr>job = ''No user crontab'', status = Missing, message = message no_crontab_entry\<rparr>]
   \<and> color (cron_main CommandNotFound [''kernel: boot'']) = 0xE67E22"
proof -
  have "parse_logs [''kernel: boot''] = []"
    by code_simp
  with no_jobs_results [of "[''kernel: boot'']"] show ?thesis
    by simp
qed

text \<open>
  Claim C6 (fcron flavor). With no extracted event the results are the single entry
  \<open>No fcron activity\<close> with status Missing. With at least one event there is one entry
  per event and none of them is Missing, so the synthetic entry is not among them.
\<close>

theorem C6_no_activity:
  "(parse_fcron_logs logs = [] \<longrightarrow>
      fcron_results logs =
        [\<lparr>job = ''No fcron activity'', status = Missing,
          message = ''No fcron jobs ran in the last interval.''\<rparr>])
   \<and> (parse_fcron_logs logs \<noteq> [] \<longrightarrow>
        length (fcron_results logs) = length (parse_fcron_logs logs)
        \<and> (\<forall>r \<in> set (fcron_results logs). status r \<noteq> Missing))"
proof -
  have "status (event_result e) \<noteq> Missing" for e
    by (simp add: event_result_def Let_def split: option.splits)
  then show ?thesis
    by (auto simp: fcron_results_eq no_activity_entry_def)
qed

theorem C6_no_activity_witness:
  "fcron_results [''cron: x''] =
     [\<lparr>job = ''No fcron activity'', status = Missing,
       message = ''No fcron jobs ran in the last interval.''\<rparr>]
   \<and> length (fcron_results [''FCRON: a'', ''cron: x'', ''fcron: b'']) = 2
   \<and> list_all (\<lambda>r. status r \<noteq> Missing) (fcron_results [''FCRON: a'', ''cron: x'', ''fcron: b''])"
proof -
  have a: "parse_fcron_logs [''cron: x''] = []"
    by code_simp
  have b: "parse_fcron_logs [''FCRON: a'', ''cron: x'', ''fcron: b''] = [''FCRON: a'', ''fcron: b'']"
    by code_simp
  show ?thesis
    using C6_no_activity [of "[''cron: x'']"]
      C6_no_activity [of "[''FCRON: a'', ''cron: x'', ''fcron: b'']"]
    by (simp add: a b list_all_iff)
qed

text \<open>
  Claim C8 (both flavors). The extractor keeps, in their order and unchanged, exactly the
  lines that satisfy the predicate of the flavor: in the cron flavor the line contains
  \<open>CRON\<close>, \<open>cron\<close> or \<open>fcron\<close> as written; in the fcron flavor it contains five
  characters in a row that are the letters of \<open>fcron\<close>, each in lower or upper case. No
  line gives no event, and there is no failing branch.
\<close>

theorem C8_event_extractor:
  "parse_logs logs =
     filter (\<lambda>l. sublist ''CRON'' l \<or> sublist ''cron'' l \<or> sublist ''fcron'' l) logs
   \<and> parse_fcron_logs logs =
       filter (\<lambda>l. \<exists>m. sublist m l \<and> list_all2 spec_same_letter ''fcron'' m) logs
   \<and> subseq (parse_logs logs) logs \<and> subseq (parse_fcron_logs logs) logs
   \<and> parse_logs [] = [] \<and> parse_fcron_logs [] = []"
proof -
  have a: "parse_logs logs =
     filter (\<lambda>l. sublist ''CRON'' l \<or> sublist ''cron'' l \<or> sublist ''fcron'' l) logs"
    unfolding parse_logs_eq by (rule filter_cong) (simp_all only: re_search_cron_alt)
  have b: "parse_fcron_logs logs =
       filter (\<lambda>l. \<exists>m. sublist m l \<and> list_all2 spec_same_letter ''fcron'' m) logs"
    unfolding parse_fcron_logs_eq by (rule filter_cong) (simp_all only: re_search_ci_fcron)
  have c: "subseq (parse_logs logs) logs" "subseq (parse_fcron_logs logs) logs"
    by (simp_all add: parse_logs_eq parse_fcron_logs_eq)
  have d: "parse_logs [] = []" "parse_fcron_logs [] = []"
    by (simp_all add: parse_logs_eq parse_fcron_logs_eq)
  from a b c d show ?thesis by simp
qed

theorem C8_event_extractor_witness:
  "parse_logs [''Nov  4 CRON[1]: a'', ''kernel: b'', ''Cron c'', ''fcron[2]: d'', ''crond: e'']
     = [''Nov  4 CRON[1]: a'', ''fcron[2]: d'', ''crond: e'']
   \<and> parse_fcron_logs [''Nov  4 CRON[1]: a'', ''kernel: b'', ''FCron c'', ''fcron[2]: d'']
     = [''FCron c'', ''fcron[2]: d'']"
proof -
  have a: "filter (\<lambda>l. sublist ''CRON'' l \<or> sublist ''cron'' l \<or> sublist ''fcron'' l)
      [''Nov  4 CRON[1]: a'', ''kernel: b'', ''Cron c'', ''fcron[2]: d'', ''crond: e'']
     = [''Nov  4 CRON[1]: a'', ''fcron[2]: d'', ''crond: e'']"
    by code_simp
  have b: "parse_fcron_logs [''Nov  4 CRON[1]: a'', ''kernel: b'', ''FCron c'', ''fcron[2]: d'']
     = [''FCron c'', ''fcron[2]: d'']"
    by code_simp
  have "parse_logs [''Nov  4 CRON[1]: a'', ''kernel: b'', ''Cron c'', ''fcron[2]: d'', ''crond: e''] =
     filter (\<lambda>l. sublist ''CRON'' l \<or> sublist ''cron'' l \<or> sublist ''fcron'' l)
      [''Nov  4 CRON[1]: a'', ''kernel: b'', ''Cron c'', ''fcron[2]: d'', ''crond: e'']"
    using C8_event_extractor
      [of "[''Nov  4 CRON[1]: a'', ''kernel: b'', ''Cron c'', ''fcron[2]: d'', ''crond: e'']"]
    by (rule conjunct1)
  with a b show ?thesis by (simp only:) 
qed

text \<open>
  Claim C9 (cron flavor). The command label of a declared line is the join, with single
  spaces, of its whitespace-separated tokens behind the first five. The tokens are not
  empty, hold no whitespace and are together the non-whitespace characters of the line;
  splitting the label gives the same tokens back. With fewer than six tokens the label is
  the empty text, with six or more it is not. The extraction is a total function: no
  line leads to an error.
\<close>

theorem C9_label_total:
  "job_cmd l = py_join '' '' (drop 5 (py_split l))
   \<and> (\<forall>t \<in> set (py_split l). t \<noteq> [] \<and> (\<forall>c \<in> set t. \<not> is_space c))
   \<and> concat (py_split l) = filter (\<lambda>c. \<not> is_space c) l
   \<and> py_split (job_cmd l) = drop 5 (py_split l)
   \<and> (length (py_split l) < 6 \<longrightarrow> job_cmd l = [])
   \<and> (6 \<le> length (py_split l) \<longrightarrow> job_cmd l \<noteq> [])"
proof -
  have a: "\<forall>t \<in> set (py_split l). t \<noteq> [] \<and> (\<forall>c \<in> set t. \<not> is_space c)"
    using py_split_tokens by blast
  have d: "\<forall>t \<in> set (drop 5 (py_split l)). t \<noteq> [] \<and> (\<forall>c \<in> set t. \<not> is_space c)"
    using drop_tokens by blast
  have b: "py_split (job_cmd l) = drop 5 (py_split l)"
    unfolding job_cmd_def using d by (rule py_split_join)
  have c: "job_cmd l \<noteq> []" if "6 \<le> length (py_split l)"
  proof -
    from that have "drop 5 (py_split l) \<noteq> []" by simp
    moreover from d have "\<forall>t \<in> set (drop 5 (py_split l)). t \<noteq> []" by blast
    ultimately show ?thesis unfolding job_cmd_def by (simp add: py_join_Nil_iff)
  qed
  from a b c show ?thesis
    by (simp add: concat_py_split job_cmd_short) (simp add: job_cmd_def)
qed

theorem C9_label_total_witness:
  "job_cmd ''@reboot /usr/bin/backup.sh'' = []
   \<and> job_cmd ('' 0  3 * * 1'' @ [CHR 0x09] @ ''/bin/tar  -czf /b.tgz   /home '') \<noteq> []
   \<and> py_split (job_cmd ('' 0  3 * * 1'' @ [CHR 0x09] @ ''/bin/tar  -czf /b.tgz   /home ''))
       = [''/bin/tar'', ''-czf'', ''/b.tgz'', ''/home'']"
proof -
  have a: "length (py_split ''@reboot /usr/bin/backup.sh'') < 6"
    by code_simp
  have b: "6 \<le> length (py_split ('' 0  3 * * 1'' @ [CHR 0x09] @ ''/bin/tar  -czf /b.tgz   /home ''))"
    by code_simp
  have c: "drop 5 (py_split ('' 0  3 * * 1'' @ [CHR 0x09] @ ''/bin/tar  -czf /b.tgz   /home ''))
      = [''/bin/tar'', ''-czf'', ''/b.tgz'', ''/home'']"
    by code_simp
  from C9_label_total [of "''@reboot /usr/bin/backup.sh''"] a
  have 1: "job_cmd ''@reboot /usr/bin/backup.sh'' = []"
    by blast
  from C9_label_total [of "'' 0  3 * * 1'' @ [CHR 0x09] @ ''/bin/tar  -czf /b.tgz   /home ''"] b
  have 2: "job_cmd ('' 0  3 * * 1'' @ [CHR 0x09] @ ''/bin/tar  -czf /b.tgz   /home '') \<noteq> []"
    by blast
  from C9_label_total [of "'' 0  3 * * 1'' @ [CHR 0x09] @ ''/bin/tar  -czf /b.tgz   /home ''"]
  have 3: "py_split (job_cmd ('' 0  3 * * 1'' @ [CHR 0x09] @ ''/bin/tar  -czf /b.tgz   /home ''))
      = drop 5 (py_split ('' 0  3 * * 1'' @ [CHR 0x09] @ ''/bin/tar  -czf /b.tgz   /home ''))"
    by blast
  from 1 2 3 c show ?thesis
    by (simp only: simp_thms)
qed

text \<open>
  Claim C10 (cron flavor). For a declared line with fewer than six tokens the label is
  empty and so a substring of every line: the entry of such a job is Success as soon as
  one event was extracted, and Missing only when none was.
\<close>

theorem C10_short_line:
  assumes "i < length jobs" and "length (py_split (jobs ! i)) < 6"
  shows "job (cron_results jobs logs ! i) = []
       \<and> (\<forall>e. sublist (job (cron_results jobs logs ! i)) e)
       \<and> status (cron_results jobs logs ! i) =
           (if parse_logs logs = [] then Missing else Success)"
proof -
  from assms(2) have l: "job_cmd (jobs ! i) = []" by (rule job_cmd_short)
  have "(\<exists>e \<in> set (parse_logs logs). sublist [] e) \<longleftrightarrow> parse_logs logs \<noteq> []"
    by (cases "parse_logs logs") auto
  with assms(1) l show ?thesis
    by (simp add: cron_results_nth job_result_job job_result_status)
qed

theorem C10_short_line_witness:
  "status (cron_results [''@daily /bin/x''] [''cron: CMD (/bin/other)''] ! 0) = Success
   \<and> status (cron_results [''@daily /bin/x''] [''kernel: up''] ! 0) = Missing"
proof -
  have i: "0 < length [''@daily /bin/x'']"
    by simp
  have s: "length (py_split ([''@daily /bin/x''] ! 0)) < 6"
    by code_simp
  have a: "parse_logs [''cron: CMD (/bin/other)''] \<noteq> []"
    by code_simp
  have b: "parse_logs [''kernel: up''] = []"
    by code_simp
  show ?thesis
    using C10_short_line [OF i s, of "[''cron: CMD (/bin/other)'']"]
      C10_short_line [OF i s, of "[''kernel: up'']"] a b
    by simp
qed

text \<open>
  Claim C7 (both flavors). In the cron flavor the results are the synthetic entry when
  there is no declared job, then one entry per declared job in the declared order, then
  the failure entries in the order of the events; their labels are, in this order, the
  command labels of the jobs and \<open>Failure detected\<close>. In the fcron flavor with at
  least one event the results are one entry per event in the order of the events. The
  fields of the report carry the labels, messages and icons of the results in the same
  order, in both runs.
\<close>

theorem C7_entry_order:
  "cron_results jobs logs =
     (if jobs = [] then [no_crontab_entry] else [])
     @ map (job_result (parse_logs logs)) jobs
     @ map failure_entry (filter failure_line (parse_logs logs))
   \<and> map job (cron_results jobs logs) =
       (if jobs = [] then [''No user crontab''] else [])
       @ map job_cmd jobs
       @ map (\<lambda>e. ''Failure detected'') (filter failure_line (parse_logs logs))
   \<and> (parse_fcron_logs logs \<noteq> [] \<longrightarrow>
        fcron_results logs = map event_result (parse_fcron_logs logs))
   \<and> map name_job (field_list (send_discord_report rs)) = map job rs
   \<and> map field_value (field_list (send_discord_report rs)) = map message rs
   \<and> map name_icon (field_list (send_discord_report rs)) = map (\<lambda>r. status_icon (status r)) rs
   \<and> field_list (cron_main run logs) =
       field_list (send_discord_report (cron_results (get_crontab run) logs))
   \<and> field_list (fcron_main logs) = field_list (send_discord_report (fcron_results logs))"
proof -
  have a: "cron_results jobs logs =
     (if jobs = [] then [no_crontab_entry] else [])
     @ map (job_result (parse_logs logs)) jobs
     @ map failure_entry (filter failure_line (parse_logs logs))"
    by (simp add: cron_results_eq)
  have b: "map job (cron_results jobs logs) =
       (if jobs = [] then [''No user crontab''] else [])
       @ map job_cmd jobs
       @ map (\<lambda>e. ''Failure detected'') (filter failure_line (parse_logs logs))"
    by (simp add: cron_results_eq no_crontab_entry_def job_result_job job_failure_entry comp_def)
  have c: "fcron_results logs = map event_result (parse_fcron_logs logs)"
    if "parse_fcron_logs logs \<noteq> []"
    using that by (simp add: fcron_results_eq)
  have d: "map name_job (field_list (send_discord_report rs)) = map job rs"
    "map field_value (field_list (send_discord_report rs)) = map message rs"
    "map name_icon (field_list (send_discord_report rs)) = map (\<lambda>r. status_icon (status r)) rs"
    by (simp_all add: field_list_send comp_def)
  have e: "field_list (cron_main run logs) =
       field_list (send_discord_report (cron_results (get_crontab run) logs))"
    "field_list (fcron_main logs) = field_list (send_discord_report (fcron_results logs))"
    by (simp_all add: cron_main_def fcron_main_def)
  from a b c d e show ?thesis by blast
qed

theorem C7_entry_order_witness:
  "map name_job (field_list (fcron_main [''fcron: CMD (b)'', ''x'', ''fcron: CMD (a)''])) = [''b'', ''a'']"
proof -
  have ev: "parse_fcron_logs [''fcron: CMD (b)'', ''x'', ''fcron: CMD (a)'']
      = [''fcron: CMD (b)'', ''fcron: CMD (a)'']"
    by code_simp
  have ne: "parse_fcron_logs [''fcron: CMD (b)'', ''x'', ''fcron: CMD (a)''] \<noteq> []"
    by (simp add: ev)
  have j: "map job (map event_result [''fcron: CMD (b)'', ''fcron: CMD (a)'']) = [''b'', ''a'']"
    by code_simp
  note t = C7_entry_order [of "[]" "[''fcron: CMD (b)'', ''x'', ''fcron: CMD (a)'']"
      "fcron_results [''fcron: CMD (b)'', ''x'', ''fcron: CMD (a)'']" CommandNotFound]
  from t ne have r: "fcron_results [''fcron: CMD (b)'', ''x'', ''fcron: CMD (a)'']
      = map event_result (parse_fcron_logs [''fcron: CMD (b)'', ''x'', ''fcron: CMD (a)''])"
    by blast
  from t have f: "field_list (fcron_main [''fcron: CMD (b)'', ''x'', ''fcron: CMD (a)'']) =
      field_list (send_discord_report (fcron_results [''fcron: CMD (b)'', ''x'', ''fcron: CMD (a)'']))"
    by blast
  from t have n: "map name_job (field_list (send_discord_report
        (fcron_results [''fcron: CMD (b)'', ''x'', ''fcron: CMD (a)'']))) =
      map job (fcron_results [''fcron: CMD (b)'', ''x'', ''fcron: CMD (a)''])"
    by blast
  have "map name_job (field_list (fcron_main [''fcron: CMD (b)'', ''x'', ''fcron: CMD (a)''])) =
      map job (fcron_results [''fcron: CMD (b)'', ''x'', ''fcron: CMD (a)''])"
    by (simp only: f n)
  also have "\<dots> = map job (map event_result [''fcron: CMD (b)'', ''fcron: CMD (a)''])"
    by (subst r) (simp only: ev)
  also note j
  finally show ?thesis .
qed

text \<open>
  Claim C3 (fcron flavor), as the code has it. Every extracted event \<open>e\<close> has its own
  entry \<open>r\<close>, at the same index. The label is \<open>Unknown job\<close> when the line has no
  \<open>CMD (...)\<close> token, and else the text enclosed by the first such token. When the
  line has no \<open>EXIT STATUS (digits)\<close> token the status is Success with the message
  \<open>Ran successfully.\<close>; else the digits \<open>ds\<close> of the first such token decide: the
  same Success entry when \<open>ds\<close> is exactly the text \<open>0\<close>, and otherwise Failed with
  the raw line verbatim between code fences as message. The comparison is one of texts,
  not of numbers.
\<close>

theorem C3_event_classification:
  assumes "i < length (parse_fcron_logs logs)"
    and "e = parse_fcron_logs logs ! i"
    and "r = fcron_results logs ! i"
  shows "length (fcron_results logs) = length (parse_fcron_logs logs)
   \<and> ((\<forall>n g. \<not> spec_cmd_token e n g) \<and> job r = ''Unknown job''
      \<or> (\<exists>n. spec_cmd_token e n (job r) \<and> (\<forall>m h. spec_cmd_token e m h \<longrightarrow> n \<le> m)))
   \<and> ((\<forall>n ds. \<not> spec_exit_token e n ds)
        \<and> status r = Success \<and> message r = ''Ran successfully.''
      \<or> (\<exists>n ds. spec_exit_token e n ds \<and> (\<forall>m h. spec_exit_token e m h \<longrightarrow> n \<le> m)
            \<and> (if ds = ''0''
                then status r = Success \<and> message r = ''Ran successfully.''
                else status r = Failed \<and> message r = fenced e \<and> sublist e (message r))))"
proof -
  from assms(1) have ne: "parse_fcron_logs logs \<noteq> []" by auto
  then have res: "fcron_results logs = map event_result (parse_fcron_logs logs)"
    by (simp add: fcron_results_eq)
  with assms have r: "r = event_result e" by simp
  have len: "length (fcron_results logs) = length (parse_fcron_logs logs)"
    by (simp add: res)
  have lbl: "(\<forall>n g. \<not> spec_cmd_token e n g) \<and> job r = ''Unknown job''
      \<or> (\<exists>n. spec_cmd_token e n (job r) \<and> (\<forall>m h. spec_cmd_token e m h \<longrightarrow> n \<le> m))"
  proof (cases "re_search_cmd e")
    case None
    then have "\<forall>n g. \<not> spec_cmd_token e n g" by (simp add: re_search_cmd_None)
    moreover from None have "job r = ''Unknown job''" by (simp add: r job_event_result)
    ultimately show ?thesis by blast
  next
    case (Some g)
    then have "job r = g" by (simp add: r job_event_result)
    with Some show ?thesis by (simp add: re_search_cmd_Some)
  qed
  have st: "(\<forall>n ds. \<not> spec_exit_token e n ds)
        \<and> status r = Success \<and> message r = ''Ran successfully.''
      \<or> (\<exists>n ds. spec_exit_token e n ds \<and> (\<forall>m h. spec_exit_token e m h \<longrightarrow> n \<le> m)
            \<and> (if ds = ''0''
                then status r = Success \<and> message r = ''Ran successfully.''
                else status r = Failed \<and> message r = fenced e \<and> sublist e (message r)))"
  proof (cases "re_search_exit e")
    case None
    then have "\<forall>n ds. \<not> spec_exit_token e n ds" by (simp add: re_search_exit_None)
    with event_result_no_token [OF None] show ?thesis by (simp add: r)
  next
    case (Some ds)
    then obtain n where n: "spec_exit_token e n ds" "\<forall>m h. spec_exit_token e m h \<longrightarrow> n \<le> m"
      by (auto simp: re_search_exit_Some)
    have "if ds = ''0''
          then status r = Success \<and> message r = ''Ran successfully.''
          else status r = Failed \<and> message r = fenced e \<and> sublist e (message r)"
      using event_result_token [OF Some] sublist_fenced [of e]
      by (simp add: r split: if_splits)
    with n show ?thesis by blast
  qed
  from len lbl st show ?thesis by blast
qed

theorem C3_event_classification_witness:
  "length (fcron_results [''fcron: CMD (a) EXIT STATUS (7)'']) =
     length (parse_fcron_logs [''fcron: CMD (a) EXIT STATUS (7)''])
   \<and> ((\<forall>n g. \<not> spec_cmd_token ''fcron: CMD (a) EXIT STATUS (7)'' n g)
        \<and> job \<lparr>job = ''a'', status = Failed,
                 message = fenced ''fcron: CMD (a) EXIT STATUS (7)''\<rparr> = ''Unknown job''
      \<or> (\<exists>n. spec_cmd_token ''fcron: CMD (a) EXIT STATUS (7)'' n
                (job \<lparr>job = ''a'', status = Failed,
                       message = fenced ''fcron: CMD (a) EXIT STATUS (7)''\<rparr>)
            \<and> (\<forall>m h. spec_cmd_token ''fcron: CMD (a) EXIT STATUS (7)'' m h \<longrightarrow> n \<le> m)))
   \<and> ((\<forall>n ds. \<not> spec_exit_token ''fcron: CMD (a) EXIT STATUS (7)'' n ds)
        \<and> status \<lparr>job = ''a'', status = Failed,
                    message = fenced ''fcron: CMD (a) EXIT STATUS (7)''\<rparr> = Success
        \<and> message \<lparr>job = ''a'', status = Failed,
                     message = fenced ''fcron: CMD (a) EXIT STATUS (7)''\<rparr> = ''Ran successfully.''
      \<or> (\<exists>n ds. spec_exit_token ''fcron: CMD (a) EXIT STATUS (7)'' n ds
            \<and> (\<forall>m h. spec_exit_token ''fcron: CMD (a) EXIT STATUS (7)'' m h \<longrightarrow> n \<le> m)
            \<and> (if ds = ''0''
                then status \<lparr>job = ''a'', status = Failed,
                        message = fenced ''fcron: CMD (a) EXIT STATUS (7)''\<rparr> = Success
                   \<and> message \<lparr>job = ''a'', status = Failed,
                        message = fenced ''fcron: CMD (a) EXIT STATUS (7)''\<rparr> = ''Ran successfully.''
                else status \<lparr>job = ''a'', status = Failed,
                        message = fenced ''fcron: CMD (a) EXIT STATUS (7)''\<rparr> = Failed
                   \<and> message \<lparr>job = ''a'', status = Failed,
                        message = fenced ''fcron: CMD (a) EXIT STATUS (7)''\<rparr> =
                       fenced ''fcron: CMD (a) EXIT STATUS (7)''
                   \<and> sublist ''fcron: CMD (a) EXIT STATUS (7)''
                        (message \<lparr>job = ''a'', status = Failed,
                           message = fenced ''fcron: CMD (a) EXIT STATUS (7)''\<rparr>))))"
proof -
  have i: "0 < length (parse_fcron_logs [''fcron: CMD (a) EXIT STATUS (7)''])"
    by code_simp
  have e: "''fcron: CMD (a) EXIT STATUS (7)'' =
      parse_fcron_logs [''fcron: CMD (a) EXIT STATUS (7)''] ! 0"
    by code_simp
  have r: "\<lparr>job = ''a'', status = Failed, message = fenced ''fcron: CMD (a) EXIT STATUS (7)''\<rparr> =
      fcron_results [''fcron: CMD (a) EXIT STATUS (7)''] ! 0"
    by code_simp
  show ?thesis
    by (rule C3_event_classification [OF i e r])
qed

text \<open>
  Claim C3 as the specification states it speaks of the exit code as a number. The line
  below is extracted, carries the token \<open>EXIT STATUS (00)\<close>, whose exit code is the
  number zero, and is classified Failed.
\<close>

theorem C3_counterexample:
  "parse_fcron_logs [''fcron: job x EXIT STATUS (00)''] = [''fcron: job x EXIT STATUS (00)'']
   \<and> spec_exit_token ''fcron: job x EXIT STATUS (00)'' 13 ''00''
   \<and> spec_exit_code ''00'' = 0
   \<and> status (fcron_results [''fcron: job x EXIT STATUS (00)''] ! 0) = Failed"
  by code_simp

text \<open>
  When the probes raise no \<open>FileNotFoundError\<close>, \<open>get_logs\<close> returns and the run sends
  its report.
\<close>

lemma detect_loop_returns:
  "\<forall>svc \<in> set services. probe svc \<noteq> NotFound \<Longrightarrow> \<exists>r. detect_loop probe services = Inr r"
  by (induction services) (auto split: call_outcome.splits)

lemma get_logs_returns:
  assumes "\<forall>svc. systemctl h svc \<noteq> NotFound"
  shows "\<exists>logs. get_logs h = Inr logs"
proof -
  from assms obtain r where "detect_scheduler h = Inr r"
    unfolding detect_scheduler_def using detect_loop_returns by blast
  then show ?thesis
    by (simp add: get_logs_def split: option.splits)
qed

lemma cron_run_returns:
  "get_logs h = Inr logs \<Longrightarrow> cron_run h = Inr (cron_main (crontab h) logs)"
  by (simp add: cron_run_def)

text \<open>
  Claim C5 (cron flavor), where the code breaks it. On a host without \<open>systemctl\<close> the
  first probe of \<open>detect_scheduler\<close> raises \<open>FileNotFoundError\<close>, which nothing catches:
  the run ends with this error and sends no report, whatever \<open>crontab -l\<close> gives, so also
  when \<open>crontab\<close> is not installed and the job list is empty.
\<close>

theorem C5_run_aborted:
  assumes "systemctl h ''cron.service'' = NotFound"
  shows "detect_scheduler h = Inl FileNotFoundError
       \<and> get_logs h = Inl FileNotFoundError
       \<and> cron_run h = Inl FileNotFoundError"
  using assms by (simp add: cron_run_def get_logs_def detect_scheduler_def)

theorem C5_run_aborted_witness:
  "get_crontab (crontab \<lparr>crontab = CommandNotFound, systemctl = (\<lambda>svc. NotFound),
      journalctl = (\<lambda>svc. None), log_file = (\<lambda>f. None)\<rparr>) = []
   \<and> cron_run \<lparr>crontab = CommandNotFound, systemctl = (\<lambda>svc. NotFound),
      journalctl = (\<lambda>svc. None), log_file = (\<lambda>f. None)\<rparr> = Inl FileNotFoundError"
  using C5_run_aborted [of "\<lparr>crontab = CommandNotFound, systemctl = (\<lambda>svc. NotFound),
      journalctl = (\<lambda>svc. None), log_file = (\<lambda>f. None)\<rparr>"]
  by simp

end
